theory Spec2Isabelle
  imports Main "HOL-Library.Sublist" "HOL-Library.Multiset"
begin

section \<open>Type-profile demo: the Session Driver and the Annotator of demo.js\<close>

text \<open>
  JavaScript strings are modelled as \<^typ>\<open>string\<close>: one \<^typ>\<open>char\<close> per code unit.
  \<open>Escape\<close> and \<open>MarkUpCode\<close> only ever compare code units with seven ASCII characters,
  slice by index and concatenate, so nothing below depends on the size of the alphabet.
\<close>

subsection \<open>Escape (demo.js, lines 38 to 51)\<close>

definition CR :: char where
  "CR = CHR 0x0D"

definition LF :: char where
  "LF = CHR 0x0A"

definition DQUOTE :: char where
  "DQUOTE = CHR 0x22"

text \<open>
  \<open>string.replace(new RegExp(pattern, "g"), replacement)\<close> for a pattern without regular
  expression metacharacters and a replacement without \<open>$\<close>: the input is scanned from the
  left, every match of the literal pattern is replaced, and scanning resumes after the
  match (matches do not overlap, replaced text is not scanned again). The empty pattern
  matches before every code unit and at the end, as in JavaScript.
\<close>

function replace_all :: "string \<Rightarrow> string \<Rightarrow> string \<Rightarrow> string" where
  "replace_all pat rep [] = (if pat = [] then rep else [])"
| "replace_all pat rep (c # cs) =
     (if pat = [] then rep @ c # replace_all pat rep cs
      else if prefix pat (c # cs)
        then rep @ replace_all pat rep (drop (length pat) (c # cs))
        else c # replace_all pat rep cs)"
  by pat_completeness auto
termination
  by (relation "measure (\<lambda>(pat, rep, s). length s)") auto

definition escape_table :: "(string \<times> string) list" where
  "escape_table =
     [(''&'', ''&amp;''),
      ('' '', ''&nbsp;''),
      (''<'', ''&lt;''),
      (''>'', ''&gt;''),
      ([CR, LF], ''<br/>''),
      ([LF], ''<br/>''),
      ([DQUOTE], ''&quot;'')]"

text \<open>\<open>[...].reduce(function(string, [pattern, replacement]) {...}, string)\<close> is a left fold.\<close>

definition Escape :: "string \<Rightarrow> string" where
  "Escape string =
     foldl (\<lambda>string (pattern, replacement). replace_all pattern replacement string)
       string escape_table"

subsection \<open>The data of a type profile\<close>

record TypeObject =
  name :: string

record TypeSample =
  offset :: int
  types :: "TypeObject list"

record ProfileEntry =
  scriptId :: string
  entries :: "TypeSample list"

subsection \<open>MarkUpCode (demo.js, lines 90 to 122)\<close>

text \<open>\<open>profile.reduce((result, next) => result = result.concat(next.entries), [])\<close>\<close>

definition flatten :: "ProfileEntry list \<Rightarrow> TypeSample list" where
  "flatten profile = foldl (\<lambda>result next. result @ entries next) [] profile"

text \<open>
  \<open>entries.sort(function({ offset: ao }, { offset: bo }) { return ao-bo; })\<close>.
  The sort is the runtime's \<open>Array.prototype.sort\<close>, not code of \<open>demo.js\<close>. With this
  comparator it returns the samples in non-decreasing order of offset; in which order it
  returns samples with equal offsets depends on the runtime: in their input order where the
  sort is stable (ECMAScript 2019 and later), in any order before. \<open>array_sort\<close> is the
  stable sort, written as an insertion sort. \<open>MarkUpCode_with\<close> below takes the runtime's
  sort as a parameter, for the property that depends on the order of equal offsets.
\<close>

definition compare_offsets :: "TypeSample \<Rightarrow> TypeSample \<Rightarrow> int" where
  "compare_offsets a b = offset a - offset b"

fun insert_sorted :: "('a \<Rightarrow> 'a \<Rightarrow> int) \<Rightarrow> 'a \<Rightarrow> 'a list \<Rightarrow> 'a list" where
  "insert_sorted cmp x [] = [x]"
| "insert_sorted cmp x (y # ys) =
     (if cmp x y \<le> 0 then x # y # ys else y # insert_sorted cmp x ys)"

definition array_sort :: "('a \<Rightarrow> 'a \<Rightarrow> int) \<Rightarrow> 'a list \<Rightarrow> 'a list" where
  "array_sort cmp xs = foldr (insert_sorted cmp) xs []"

text \<open>
  \<open>String.prototype.substring(start, end)\<close> on integers: both arguments are clamped to
  \<open>0..length\<close>, and swapped when the first is the larger one.
\<close>

definition substring :: "string \<Rightarrow> int \<Rightarrow> int \<Rightarrow> string" where
  "substring s start end =
     (let len = int (length s);
          int_start = min (max start 0) len;
          int_end = min (max end 0) len;
          from = min int_start int_end;
          to = max int_start int_end
      in take (nat (to - from)) (drop (nat from) s))"

text \<open>The two local variables that the helper functions of \<open>MarkUpCode\<close> update.\<close>

record markup =
  result :: string
  cursor :: int

definition CopySourceUpTo :: "string \<Rightarrow> int \<Rightarrow> markup \<Rightarrow> markup" where
  "CopySourceUpTo source up_to m =
     \<lparr>result = result m @ Escape (substring source (cursor m) up_to), cursor = up_to\<rparr>"

definition PrintType :: "TypeObject \<Rightarrow> markup \<Rightarrow> markup" where
  \<open>PrintType t m =
     m\<lparr>result := result m
         @ ''<span style="background-color: rgb(255, 0, 0); color: white"''
         @ ''>''
         @ name t
         @ ''</span>''
         @ '' ''\<rparr>\<close>

text \<open>\<open>for (let type of entry.types) PrintType(type)\<close>\<close>

fun print_types :: "TypeObject list \<Rightarrow> markup \<Rightarrow> markup" where
  "print_types [] m = m"
| "print_types (t # ts) m = print_types ts (PrintType t m)"

text \<open>\<open>for (let entry of entries) { CopySourceUpTo(entry.offset); ... }\<close>\<close>

fun walk :: "string \<Rightarrow> TypeSample list \<Rightarrow> markup \<Rightarrow> markup" where
  "walk source [] m = m"
| "walk source (entry # rest) m =
     walk source rest (print_types (types entry) (CopySourceUpTo source (offset entry) m))"

definition sorted_entries :: "ProfileEntry list \<Rightarrow> TypeSample list" where
  "sorted_entries profile = array_sort compare_offsets (flatten profile)"

definition MarkUpCode :: "ProfileEntry list \<Rightarrow> string \<Rightarrow> string" where
  "MarkUpCode profile source =
     result (CopySourceUpTo source (int (length source))
       (walk source (sorted_entries profile) \<lparr>result = [], cursor = 0\<rparr>))"



subsection \<open>The inspector session as the driver sees it\<close>

text \<open>
  The commands that \<open>CollectProfile\<close> posts, with the parameters it passes:
  \<open>Runtime.compileScript\<close> takes \<open>expression\<close>, \<open>sourceURL\<close> and \<open>persistScript\<close>,
  \<open>Runtime.runScript\<close> takes \<open>scriptId\<close>.
\<close>

datatype command =
    RuntimeEnable
  | ProfilerEnable
  | ProfilerStartTypeProfile
  | RuntimeCompileScript string string bool
  | RuntimeRunScript string
  | HeapProfilerCollectGarbage
  | ProfilerTakeTypeProfile
  | ProfilerStopTypeProfile
  | ProfilerDisable
  | RuntimeDisable

text \<open>
  What the callback of \<open>session.post\<close> receives: \<open>error\<close> (\<open>None\<close> is \<open>null\<close>) and a
  \<open>result\<close> object, of which the driver reads \<open>exceptionDetails.exception.description\<close>,
  \<open>scriptId\<close> (after \<open>Runtime.compileScript\<close>) and \<open>result\<close> (after
  \<open>Profiler.takeTypeProfile\<close>). \<open>NoReply\<close> is a command whose callback is never called.
\<close>

record RemoteObject =
  description :: string

record ExceptionDetails =
  exception :: RemoteObject

record command_result =
  exceptionDetails :: "ExceptionDetails option"
  r_scriptId :: string
  r_result :: "ProfileEntry list"

datatype reply = NoReply | Callback "string option" command_result

record LogMessage =
  level :: string
  log_value :: string

text \<open>
  The remote side is a parameter: whether \<open>session.connect()\<close> throws, what the callback of
  each posted command receives, and which \<open>Runtime.consoleAPICalled\<close> notifications arrive
  while the driver awaits that command. Every command of the sequence is posted at most
  once, so a function of the command covers every deterministic remote side.
  \<open>session.disconnect()\<close> returns normally (it is a no-op on a session that is not connected).
\<close>

record remote =
  connect_throws :: "string option"
  respond :: "command \<Rightarrow> reply"
  notified :: "command \<Rightarrow> LogMessage list"

text \<open>
  A rejection reason is what \<open>reject\<close> was called with: the error object of the callback (or the
  error thrown by \<open>connect\<close>), or the description string of the exception details.
\<close>

datatype reason = ErrorObject string | Description string

datatype 'a promise = Resolved 'a | Rejected reason | Pending

text \<open>
  The session records every call made on it, whether the console listener is registered,
  and the local array \<open>messages\<close> that the listener pushes to.
\<close>

datatype action = Connect | Post command | On | Disconnect

record session =
  trace :: "action list"
  listening :: bool
  messages :: "LogMessage list"

definition new_session :: session where
  "new_session = \<lparr>trace = [], listening = False, messages = []\<rparr>"

text \<open>
  \<open>await\<close>: the rest of the function runs only once the promise is fulfilled; a rejection is
  thrown at the \<open>await\<close> and leaves the \<open>try\<close> block, and a promise that never settles
  suspends the function for good.
\<close>

definition await_then ::
  "(session \<Rightarrow> 'a promise \<times> session) \<Rightarrow> ('a \<Rightarrow> session \<Rightarrow> 'b promise \<times> session)
     \<Rightarrow> session \<Rightarrow> 'b promise \<times> session" where
  "await_then m f s =
     (case m s of
        (Resolved a, s') \<Rightarrow> f a s'
      | (Rejected r, s') \<Rightarrow> (Rejected r, s')
      | (Pending, s') \<Rightarrow> (Pending, s'))"

definition connect :: "remote \<Rightarrow> session \<Rightarrow> unit promise \<times> session" where
  "connect R s =
     (let s' = s\<lparr>trace := trace s @ [Connect]\<rparr>
      in case connect_throws R of
           Some e \<Rightarrow> (Rejected (ErrorObject e), s')
         | None \<Rightarrow> (Resolved (), s'))"

text \<open>A notification reaches \<open>messages\<close> only if the listener has been registered.\<close>

definition deliver :: "remote \<Rightarrow> command \<Rightarrow> session \<Rightarrow> session" where
  "deliver R cmd s =
     (if listening s then s\<lparr>messages := messages s @ notified R cmd\<rparr> else s)"

subsection \<open>postAsync (demo.js, lines 7 to 22)\<close>

definition postAsync :: "remote \<Rightarrow> command \<Rightarrow> session \<Rightarrow> command_result promise \<times> session" where
  "postAsync R cmd s =
     (let s' = deliver R cmd (s\<lparr>trace := trace s @ [Post cmd]\<rparr>)
      in case respond R cmd of
           NoReply \<Rightarrow> (Pending, s')
         | Callback error res \<Rightarrow>
             (case error of
                Some e \<Rightarrow> (Rejected (ErrorObject e), s')
              | None \<Rightarrow>
                  (case exceptionDetails res of
                     Some details \<Rightarrow> (Rejected (Description (description (exception details))), s')
                   | None \<Rightarrow> (Resolved res, s'))))"

subsection \<open>CollectProfile (demo.js, lines 53 to 88)\<close>

definition on_consoleAPICalled :: "session \<Rightarrow> session" where
  "on_consoleAPICalled s = s\<lparr>trace := trace s @ [On], listening := True\<rparr>"

definition disconnect :: "session \<Rightarrow> session" where
  "disconnect s = s\<lparr>trace := trace s @ [Disconnect], listening := False\<rparr>"

text \<open>The body of the \<open>try\<close> block; its value is the local variable \<open>profile\<close>.\<close>

definition try_block :: "remote \<Rightarrow> string \<Rightarrow> session \<Rightarrow> ProfileEntry list promise \<times> session" where
  "try_block R source =
     await_then (connect R) (\<lambda>_.
     await_then (postAsync R RuntimeEnable) (\<lambda>_.
     await_then (postAsync R ProfilerEnable) (\<lambda>_.
     await_then (postAsync R ProfilerStartTypeProfile) (\<lambda>_.
     await_then (postAsync R (RuntimeCompileScript source ''test'' True)) (\<lambda>compiled.
     await_then (\<lambda>s. (Resolved (), on_consoleAPICalled s)) (\<lambda>_.
     await_then (postAsync R (RuntimeRunScript (r_scriptId compiled))) (\<lambda>_.
     await_then (postAsync R HeapProfilerCollectGarbage) (\<lambda>_.
     await_then (postAsync R ProfilerTakeTypeProfile) (\<lambda>taken.
     let profile = filter (\<lambda>x. scriptId x = r_scriptId compiled) (r_result taken) in
     await_then (postAsync R ProfilerStopTypeProfile) (\<lambda>_.
     await_then (postAsync R ProfilerDisable) (\<lambda>_.
     await_then (postAsync R RuntimeDisable) (\<lambda>_.
     (\<lambda>s. (Resolved profile, s))))))))))))))"

text \<open>
  \<open>finally { session.disconnect(); }\<close> runs when the \<open>try\<close> block is left, by completion or
  by a throw, and \<open>return [profile, messages]\<close> follows only after completion. A suspended
  function never reaches either.
\<close>

definition CollectProfile ::
  "remote \<Rightarrow> string \<Rightarrow> (ProfileEntry list \<times> LogMessage list) promise \<times> session" where
  "CollectProfile R source =
     (case try_block R source new_session of
        (Pending, s) \<Rightarrow> (Pending, s)
      | (Rejected r, s) \<Rightarrow> (Rejected r, disconnect s)
      | (Resolved profile, s) \<Rightarrow>
          (let s' = disconnect s in (Resolved (profile, messages s'), s')))"

section \<open>Notions used to state the properties\<close>

subsection \<open>Escaping, as the specification words it\<close>

text \<open>Every occurrence of one character is replaced.\<close>

definition subst_char :: "char \<Rightarrow> string \<Rightarrow> string \<Rightarrow> string" where
  "subst_char c rep s = concat (map (\<lambda>x. if x = c then rep else [x]) s)"

text \<open>Every CR immediately followed by LF is replaced, scanning from the left.\<close>

fun subst_crlf :: "string \<Rightarrow> string \<Rightarrow> string" where
  "subst_crlf rep [] = []"
| "subst_crlf rep [a] = [a]"
| "subst_crlf rep (a # b # s) =
     (if a = CR \<and> b = LF then rep @ subst_crlf rep s else a # subst_crlf rep (b # s))"

text \<open>The seven substitutions in the order the specification lists them.\<close>

definition Escape_spec :: "string \<Rightarrow> string" where
  "Escape_spec s =
     subst_char DQUOTE ''&quot;''
       (subst_char LF ''<br/>''
         (subst_crlf ''<br/>''
           (subst_char (CHR ''>'') ''&gt;''
             (subst_char (CHR ''<'') ''&lt;''
               (subst_char (CHR '' '') ''&nbsp;''
                 (subst_char (CHR ''&'') ''&amp;'' s))))))"

text \<open>
  Escaping in a single pass over the input: each character of the input is escaped once,
  and no character of a replacement is escaped again.
\<close>

definition esc_char :: "char \<Rightarrow> string" where
  "esc_char c =
     (if c = CHR ''&'' then ''&amp;''
      else if c = CHR '' '' then ''&nbsp;''
      else if c = CHR ''<'' then ''&lt;''
      else if c = CHR ''>'' then ''&gt;''
      else if c = LF then ''<br/>''
      else if c = DQUOTE then ''&quot;''
      else [c])"

fun esc :: "string \<Rightarrow> string" where
  "esc [] = []"
| "esc [a] = esc_char a"
| "esc (a # b # s) =
     (if a = CR \<and> b = LF then ''<br/>'' @ esc s else esc_char a @ esc (b # s))"

text \<open>The state of the pipeline after four and after five substitutions.\<close>

definition esc4 :: "char \<Rightarrow> string" where
  "esc4 c =
     (if c = CHR ''&'' then ''&amp;''
      else if c = CHR '' '' then ''&nbsp;''
      else if c = CHR ''<'' then ''&lt;''
      else if c = CHR ''>'' then ''&gt;''
      else [c])"

fun esc5 :: "string \<Rightarrow> string" where
  "esc5 [] = []"
| "esc5 [a] = esc4 a"
| "esc5 (a # b # s) =
     (if a = CR \<and> b = LF then ''<br/>'' @ esc5 s else esc4 a @ esc5 (b # s))"

text \<open>
  A string is free of markers when none of the replacement outputs occurs in it, and free of
  CR+LF pairs when no CR is immediately followed by LF.
\<close>

definition marker_free :: "string \<Rightarrow> bool" where
  "marker_free s = list_all (\<lambda>(pattern, replacement). \<not> sublist replacement s) escape_table"

definition no_crlf :: "string \<Rightarrow> bool" where
  "no_crlf s = (\<not> sublist [CR, LF] s)"

text \<open>
  The reverse substitution of the specification. It is not part of \<open>demo.js\<close>: it reads the
  table backwards and replaces every replacement output by its pattern.
\<close>

definition Unescape :: "string \<Rightarrow> string" where
  "Unescape string =
     foldl (\<lambda>string (pattern, replacement). replace_all replacement pattern string)
       string (rev escape_table)"

text \<open>The escaping of a character that is left after the first, fourth, fifth and sixth step
  of the reverse substitution.\<close>

definition esc6 :: "char \<Rightarrow> string" where
  "esc6 c =
     (if c = CHR ''&'' then ''&amp;''
      else if c = CHR '' '' then ''&nbsp;''
      else if c = CHR ''<'' then ''&lt;''
      else if c = CHR ''>'' then ''&gt;''
      else if c = LF then ''<br/>''
      else [c])"

definition esc3 :: "char \<Rightarrow> string" where
  "esc3 c =
     (if c = CHR ''&'' then ''&amp;''
      else if c = CHR '' '' then ''&nbsp;''
      else if c = CHR ''<'' then ''&lt;''
      else [c])"

definition esc2 :: "char \<Rightarrow> string" where
  "esc2 c =
     (if c = CHR ''&'' then ''&amp;''
      else if c = CHR '' '' then ''&nbsp;''
      else [c])"

definition esc1 :: "char \<Rightarrow> string" where
  "esc1 c = (if c = CHR ''&'' then ''&amp;'' else [c])"

subsection \<open>The shape of the annotated text\<close>

text \<open>The text that one call of \<open>PrintType\<close> appends, and all of it for one sample.\<close>

definition marker :: "TypeObject \<Rightarrow> string" where
  \<open>marker t =
     ''<span style="background-color: rgb(255, 0, 0); color: white">'' @ name t @ ''</span> ''\<close>

definition markers :: "TypeSample \<Rightarrow> string" where
  "markers entry = concat (map marker (types entry))"

text \<open>
  The slices of the source that the walk passes to \<open>Escape\<close>, in order: one before each
  sample, and the rest of the source after the last.
\<close>

fun pieces :: "string \<Rightarrow> int \<Rightarrow> TypeSample list \<Rightarrow> string list" where
  "pieces source c [] = [substring source c (int (length source))]"
| "pieces source c (entry # rest) =
     substring source c (offset entry) # pieces source (offset entry) rest"

text \<open>Escaped slices and marker groups in alternation.\<close>

fun weave :: "string list \<Rightarrow> string list \<Rightarrow> string" where
  "weave (p # ps) (m # ms) = p @ m @ weave ps ms"
| "weave ps [] = concat ps"
| "weave [] ms = concat ms"

text \<open>An index as \<open>substring\<close> reads it: clamped to the length of the string.\<close>

definition clamp :: "string \<Rightarrow> int \<Rightarrow> nat" where
  "clamp s i = nat (min (max i 0) (int (length s)))"



subsection \<open>Observations of a run of the driver\<close>


text \<open>
  The reason that a reply makes \<open>postAsync\<close> reject with, if it does: a remote error, or an
  exception description in the result.
\<close>

definition failing :: "reply \<Rightarrow> reason option" where
  "failing r =
     (case r of
        NoReply \<Rightarrow> None
      | Callback error res \<Rightarrow>
          (case error of
             Some e \<Rightarrow> Some (ErrorObject e)
           | None \<Rightarrow>
               (case exceptionDetails res of
                  Some details \<Rightarrow> Some (Description (description (exception details)))
                | None \<Rightarrow> None)))"

text \<open>
  The invariant of the command sequence: as long as the driver goes on, no posted command
  has failed; once it has rejected, the only failed command is the last one posted, and its
  reason is the rejection reason.
\<close>

definition all_posted_ok :: "remote \<Rightarrow> session \<Rightarrow> bool" where
  "all_posted_ok R s = (\<forall>c. Post c \<in> set (trace s) \<longrightarrow> failing (respond R c) = None)"

definition rejected_by_last :: "remote \<Rightarrow> reason \<Rightarrow> session \<Rightarrow> bool" where
  "rejected_by_last R r s =
     (\<forall>c. Post c \<in> set (trace s) \<longrightarrow> failing (respond R c) \<noteq> None \<longrightarrow>
        failing (respond R c) = Some r \<and> (\<exists>pre. trace s = pre @ [Post c]))"

fun step_ok :: "remote \<Rightarrow> 'a promise \<times> session \<Rightarrow> bool" where
  "step_ok R (Rejected r, s) = rejected_by_last R r s"
| "step_ok R (Resolved a, s) = all_posted_ok R s"
| "step_ok R (Pending, s) = all_posted_ok R s"

subsection \<open>Example inputs\<close>

text \<open>
  A remote side that accepts every command and harvests one entry of the compiled script
  (identifier 42) and one of another script, and one whose run step reports a thrown
  exception.
\<close>

definition ok_result :: command_result where
  "ok_result = \<lparr>exceptionDetails = None, r_scriptId = ''42'', r_result = []\<rparr>"

definition harvested :: "ProfileEntry list" where
  "harvested =
     [\<lparr>scriptId = ''42'', entries = [\<lparr>offset = 4, types = [\<lparr>name = ''number''\<rparr>]\<rparr>]\<rparr>,
      \<lparr>scriptId = ''7'', entries = [\<lparr>offset = 0, types = [\<lparr>name = ''string''\<rparr>]\<rparr>]\<rparr>]"

definition example_remote :: remote where
  "example_remote =
     \<lparr>connect_throws = None,
      respond = (\<lambda>c. Callback None
                   (if c = ProfilerTakeTypeProfile then ok_result\<lparr>r_result := harvested\<rparr>
                    else ok_result)),
      notified = (\<lambda>c. if c = RuntimeRunScript ''42'' then [\<lparr>level = ''log'', log_value = ''1''\<rparr>] else [])\<rparr>"

definition throwing_remote :: remote where
  "throwing_remote =
     example_remote\<lparr>respond := (\<lambda>c.
        if c = RuntimeRunScript ''42''
        then Callback None (ok_result\<lparr>exceptionDetails := Some \<lparr>exception = \<lparr>description = ''Error: boom''\<rparr>\<rparr>\<rparr>)
        else respond example_remote c)\<rparr>"

definition number_profile :: "ProfileEntry list" where
  "number_profile =
     [\<lparr>scriptId = ''42'', entries = [\<lparr>offset = 4, types = [\<lparr>name = ''number''\<rparr>]\<rparr>]\<rparr>]"



section \<open>Escape is the ordered pipeline, and a single pass\<close>

lemma replace_all_char: "replace_all [c] rep s = subst_char c rep s"
  by (induction s) (auto simp: subst_char_def)

lemma replace_all_crlf: "replace_all [CR, LF] rep s = subst_crlf rep s"
  by (induction rep s rule: subst_crlf.induct) (auto simp: CR_def LF_def)

lemma Escape_unfold:
  "Escape s =
     replace_all [DQUOTE] ''&quot;''
       (replace_all [LF] ''<br/>''
         (replace_all [CR, LF] ''<br/>''
           (replace_all ''>'' ''&gt;''
             (replace_all ''<'' ''&lt;''
               (replace_all '' '' ''&nbsp;''
                 (replace_all ''&'' ''&amp;'' s))))))"
  by (simp add: Escape_def escape_table_def)

lemma Escape_pipeline: "Escape s = Escape_spec s"
  unfolding Escape_unfold Escape_spec_def replace_all_char replace_all_crlf ..

lemma subst_char_append: "subst_char c r (a @ b) = subst_char c r a @ subst_char c r b"
  by (simp add: subst_char_def)

lemma subst_char_Nil: "subst_char c r [] = []"
  by (simp add: subst_char_def)

lemma subst_char_Cons: "subst_char c r (x # xs) = (if x = c then r else [x]) @ subst_char c r xs"
  by (simp add: subst_char_def)

lemma subst_char_concat:
  "subst_char c r (concat (map f s)) = concat (map (\<lambda>x. subst_char c r (f x)) s)"
  by (induction s) (simp_all add: subst_char_append subst_char_Nil)

lemma stage4_pointwise:
  "subst_char (CHR ''>'') ''&gt;''
     (subst_char (CHR ''<'') ''&lt;''
       (subst_char (CHR '' '') ''&nbsp;''
         (if x = CHR ''&'' then ''&amp;'' else [x]))) = esc4 x"
  by (simp add: subst_char_Cons subst_char_Nil esc4_def)

lemma stage4:
  "subst_char (CHR ''>'') ''&gt;''
     (subst_char (CHR ''<'') ''&lt;''
       (subst_char (CHR '' '') ''&nbsp;''
         (subst_char (CHR ''&'') ''&amp;'' s))) = concat (map esc4 s)"
proof -
  have "subst_char (CHR ''&'') ''&amp;'' s
          = concat (map (\<lambda>x. if x = CHR ''&'' then ''&amp;'' else [x]) s)"
    by (simp add: subst_char_def)
  then show ?thesis
    by (simp only: subst_char_concat stage4_pointwise)
qed

lemma subst_crlf_skip: "CR \<notin> set w \<Longrightarrow> subst_crlf r (w @ t) = w @ subst_crlf r t"
proof (induction w)
  case Nil
  then show ?case by simp
next
  case (Cons x w)
  then show ?case by (cases "w @ t") auto
qed

lemma esc4_no_CR: "a \<noteq> CR \<Longrightarrow> CR \<notin> set (esc4 a)"
  by (simp add: esc4_def CR_def)

lemma esc4_CR: "esc4 CR = [CR]"
  by (simp add: esc4_def CR_def)

lemma esc4_LF: "esc4 LF = [LF]"
  by (simp add: esc4_def LF_def)

lemma esc4_hd: "b \<noteq> LF \<Longrightarrow> \<exists>x w. esc4 b = x # w \<and> x \<noteq> LF"
  by (simp add: esc4_def LF_def)

lemma stage5: "subst_crlf ''<br/>'' (concat (map esc4 s)) = esc5 s"
proof (induction s rule: esc5.induct)
  case 1
  then show ?case by simp
next
  case (2 a)
  show ?case
  proof (cases "a = CR")
    case True
    then show ?thesis by (simp add: esc4_CR)
  next
    case False
    then show ?thesis
      using subst_crlf_skip [of "esc4 a" "''<br/>''" "[]"] esc4_no_CR [of a] by simp
  qed
next
  case (3 a b s)
  show ?case
  proof (cases "a = CR \<and> b = LF")
    case True
    with 3 show ?thesis by (simp add: esc4_CR esc4_LF)
  next
    case nopair: False
    show ?thesis
    proof (cases "a = CR")
      case True
      with nopair have "b \<noteq> LF" by simp
      then obtain x w where xw: "esc4 b = x # w" "x \<noteq> LF"
        using esc4_hd by blast
      have "subst_crlf ''<br/>'' (concat (map esc4 (a # b # s)))
              = CR # subst_crlf ''<br/>'' (concat (map esc4 (b # s)))"
        using True xw by (simp add: esc4_CR)
      moreover have "subst_crlf ''<br/>'' (concat (map esc4 (b # s))) = esc5 (b # s)"
        using 3(2) nopair by blast
      moreover have "esc5 (a # b # s) = CR # esc5 (b # s)"
        using True \<open>b \<noteq> LF\<close> by (simp add: esc4_CR)
      ultimately show ?thesis by simp
    next
      case False
      have "subst_crlf ''<br/>'' (concat (map esc4 (a # b # s)))
              = esc4 a @ subst_crlf ''<br/>'' (concat (map esc4 (b # s)))"
        using subst_crlf_skip [OF esc4_no_CR [OF False]] by simp
      moreover have "subst_crlf ''<br/>'' (concat (map esc4 (b # s))) = esc5 (b # s)"
        using 3(2) nopair by blast
      moreover have "esc5 (a # b # s) = esc4 a @ esc5 (b # s)"
        using False by simp
      ultimately show ?thesis by simp
    qed
  qed
qed

lemma stage7_pointwise:
  "subst_char DQUOTE ''&quot;'' (subst_char LF ''<br/>'' (esc4 a)) = esc_char a"
  by (simp add: subst_char_Cons subst_char_Nil esc4_def esc_char_def LF_def DQUOTE_def)

lemma stage7_br:
  "subst_char DQUOTE ''&quot;'' (subst_char LF ''<br/>'' (''<br/>'' @ t))
     = ''<br/>'' @ subst_char DQUOTE ''&quot;'' (subst_char LF ''<br/>'' t)"
  by (simp add: subst_char_Cons subst_char_Nil LF_def DQUOTE_def)

lemma stage7: "subst_char DQUOTE ''&quot;'' (subst_char LF ''<br/>'' (esc5 s)) = esc s"
proof (induction s rule: esc5.induct)
  case 1
  then show ?case by (simp add: subst_char_Nil)
next
  case (2 a)
  then show ?case by (simp add: stage7_pointwise)
next
  case (3 a b s)
  show ?case
  proof (cases "a = CR \<and> b = LF")
    case True
    with 3 show ?thesis by (simp add: stage7_br del: append.simps)
  next
    case False
    then have "esc5 (a # b # s) = esc4 a @ esc5 (b # s)"
      and "esc (a # b # s) = esc_char a @ esc (b # s)"
      by auto
    moreover have "subst_char DQUOTE ''&quot;'' (subst_char LF ''<br/>'' (esc5 (b # s)))
                     = esc (b # s)"
      using 3(2) False by blast
    ultimately show ?thesis
      by (simp only: subst_char_append stage7_pointwise)
  qed
qed

lemma Escape_esc: "Escape s = esc s"
  by (simp only: Escape_pipeline Escape_spec_def stage4 stage5 stage7)

section \<open>Escape on strings without CR+LF pairs\<close>

lemma no_crlf_Cons: "no_crlf (a # s) \<Longrightarrow> no_crlf s"
  by (auto simp: no_crlf_def sublist_Cons_right)

lemma no_crlf_head: "no_crlf (a # b # s) \<Longrightarrow> \<not> (a = CR \<and> b = LF)"
  by (auto simp: no_crlf_def sublist_Cons_right)

lemma esc_no_crlf: "no_crlf s \<Longrightarrow> esc s = concat (map esc_char s)"
proof (induction s rule: esc.induct)
  case 1
  then show ?case by simp
next
  case (2 a)
  then show ?case by simp
next
  case (3 a b s)
  have "\<not> (a = CR \<and> b = LF)" using 3(3) by (rule no_crlf_head)
  moreover have "no_crlf (b # s)" using 3(3) by (rule no_crlf_Cons)
  ultimately have "esc (b # s) = concat (map esc_char (b # s))"
    and "esc (a # b # s) = esc_char a @ esc (b # s)"
    using 3(2) by auto
  then show ?case by simp
qed

lemma esc_char_nonempty: "esc_char a \<noteq> []"
  by (simp add: esc_char_def)

lemma esc_char_prefix_free: "esc_char x @ u = esc_char y @ v \<Longrightarrow> x = y"
  by (simp add: esc_char_def LF_def DQUOTE_def split: if_splits)

lemma concat_esc_char_inj:
  "concat (map esc_char s) = concat (map esc_char t) \<Longrightarrow> s = t"
proof (induction s arbitrary: t)
  case Nil
  then show ?case by (cases t) (simp_all add: esc_char_nonempty)
next
  case (Cons x xs)
  show ?case
  proof (cases t)
    case Nil
    with Cons.prems show ?thesis by (simp add: esc_char_nonempty)
  next
    case (Cons y ys)
    with Cons.prems have eq: "esc_char x @ concat (map esc_char xs) = esc_char y @ concat (map esc_char ys)"
      by simp
    then have "x = y" by (rule esc_char_prefix_free)
    with eq have "concat (map esc_char xs) = concat (map esc_char ys)" by simp
    then have "xs = ys" by (rule Cons.IH)
    with \<open>x = y\<close> Cons show ?thesis by simp
  qed
qed

lemma Escape_inj_no_crlf:
  "no_crlf s \<Longrightarrow> no_crlf t \<Longrightarrow> Escape s = Escape t \<Longrightarrow> s = t"
  by (simp add: Escape_esc esc_no_crlf concat_esc_char_inj)

lemma esc_LF_tail: "esc (LF # b) = ''<br/>'' @ esc b"
  by (cases b) (auto simp: esc_char_def LF_def CR_def)

lemma esc_append_length: "length (esc (a @ b)) \<le> length (esc a) + length (esc b)"
proof (induction a rule: esc.induct)
  case 1
  then show ?case by simp
next
  case (2 x)
  show ?case
  proof (cases b)
    case Nil
    then show ?thesis by simp
  next
    case (Cons y ys)
    show ?thesis
    proof (cases "x = CR \<and> y = LF")
      case True
      then show ?thesis using Cons by (simp add: esc_LF_tail esc_char_def CR_def)
    next
      case False
      then show ?thesis using Cons by auto
    qed
  qed
next
  case (3 x y s)
  then show ?case by auto
qed

lemma Escape_append_length: "length (Escape (a @ b)) \<le> length (Escape a) + length (Escape b)"
  by (simp add: Escape_esc esc_append_length)

lemma Escape_concat_length: "length (Escape (concat ps)) \<le> length (concat (map Escape ps))"
proof (induction ps)
  case Nil
  then show ?case by (simp add: Escape_esc)
next
  case (Cons p ps)
  have "length (Escape (p @ concat ps)) \<le> length (Escape p) + length (Escape (concat ps))"
    by (rule Escape_append_length)
  with Cons show ?case by simp
qed


subsection \<open>The reverse substitution\<close>

lemma replace_all_match:
  "W \<noteq> [] \<Longrightarrow> replace_all W rep (W @ rest) = rep @ replace_all W rep rest"
proof (cases "W @ rest")
  case Nil
  assume "W \<noteq> []"
  with Nil show ?thesis by simp
next
  case (Cons a list)
  assume "W \<noteq> []"
  moreover have "prefix W (a # list)"
    using Cons by (metis prefixI)
  moreover have "drop (length W) (a # list) = rest"
    using Cons by (metis append_eq_conv_conj)
  ultimately have "replace_all W rep (a # list) = rep @ replace_all W rep rest"
    by simp
  with Cons show ?thesis by simp
qed

lemma replace_all_skip:
  "w0 \<notin> set u \<Longrightarrow> replace_all (w0 # W') rep (u @ rest) = u @ replace_all (w0 # W') rep rest"
  by (induction u) auto

lemma replace_word_concat:
  assumes ne: "\<And>x. f x \<noteq> []"
    and tail: "\<And>x. w0 \<notin> set (tl (f x))"
    and nomatch: "\<And>x rest. f x \<noteq> w0 # W' \<Longrightarrow> \<not> prefix (w0 # W') (f x @ rest)"
  shows "replace_all (w0 # W') rep (concat (map f s))
           = concat (map (\<lambda>x. if f x = w0 # W' then rep else f x) s)"
proof (induction s)
  case Nil
  then show ?case by simp
next
  case (Cons x xs)
  show ?case
  proof (cases "f x = w0 # W'")
    case True
    then show ?thesis
      using Cons replace_all_match [of "w0 # W'" rep "concat (map f xs)"] by simp
  next
    case False
    let ?W = "w0 # W'" and ?R = "concat (map f xs)"
    obtain a u where au: "f x = a # u"
      using ne [of x] by (cases "f x") auto
    have "\<not> prefix ?W (a # (u @ ?R))"
      using nomatch [OF False, of ?R] au by simp
    then have "replace_all ?W rep (a # (u @ ?R)) = a # replace_all ?W rep (u @ ?R)"
      by (simp only: replace_all.simps if_False list.simps)
    moreover have "w0 \<notin> set u"
      using tail [of x] au by simp
    then have "replace_all ?W rep (u @ ?R) = u @ replace_all ?W rep ?R"
      by (rule replace_all_skip)
    ultimately have "replace_all ?W rep (f x @ ?R) = f x @ replace_all ?W rep ?R"
      using au by simp
    moreover have "concat (map (\<lambda>x. if f x = ?W then rep else f x) (x # xs))
                     = f x @ concat (map (\<lambda>x. if f x = ?W then rep else f x) xs)"
      using False by simp
    moreover have "concat (map f (x # xs)) = f x @ ?R"
      by simp
    ultimately show ?thesis
      using Cons by (simp only:)
  qed
qed

lemma undo_quot:
  "replace_all ''&quot;'' [DQUOTE] (concat (map esc_char s)) = concat (map esc6 s)"
proof -
  have "replace_all ''&quot;'' [DQUOTE] (concat (map esc_char s))
          = concat (map (\<lambda>x. if esc_char x = ''&quot;'' then [DQUOTE] else esc_char x) s)"
    by (rule replace_word_concat) (auto simp: esc_char_def LF_def DQUOTE_def)
  also have "(\<lambda>x. if esc_char x = ''&quot;'' then [DQUOTE] else esc_char x) = esc6"
    by (rule ext) (simp add: esc_char_def esc6_def LF_def DQUOTE_def)
  finally show ?thesis .
qed

lemma undo_lf:
  "replace_all ''<br/>'' [LF] (concat (map esc6 s)) = concat (map esc4 s)"
proof -
  have "replace_all ''<br/>'' [LF] (concat (map esc6 s))
          = concat (map (\<lambda>x. if esc6 x = ''<br/>'' then [LF] else esc6 x) s)"
    by (rule replace_word_concat) (auto simp: esc6_def LF_def)
  also have "(\<lambda>x. if esc6 x = ''<br/>'' then [LF] else esc6 x) = esc4"
    by (rule ext) (simp add: esc6_def esc4_def LF_def)
  finally show ?thesis .
qed

lemma undo_crlf:
  "replace_all ''<br/>'' [CR, LF] (concat (map esc4 s)) = concat (map esc4 s)"
proof -
  have "replace_all ''<br/>'' [CR, LF] (concat (map esc4 s))
          = concat (map (\<lambda>x. if esc4 x = ''<br/>'' then [CR, LF] else esc4 x) s)"
    by (rule replace_word_concat) (auto simp: esc4_def)
  also have "(\<lambda>x. if esc4 x = ''<br/>'' then [CR, LF] else esc4 x) = esc4"
    by (rule ext) (simp add: esc4_def)
  finally show ?thesis .
qed

lemma undo_gt:
  "replace_all ''&gt;'' ''>'' (concat (map esc4 s)) = concat (map esc3 s)"
proof -
  have "replace_all ''&gt;'' ''>'' (concat (map esc4 s))
          = concat (map (\<lambda>x. if esc4 x = ''&gt;'' then ''>'' else esc4 x) s)"
    by (rule replace_word_concat) (auto simp: esc4_def)
  also have "(\<lambda>x. if esc4 x = ''&gt;'' then ''>'' else esc4 x) = esc3"
    by (rule ext) (simp add: esc4_def esc3_def)
  finally show ?thesis .
qed

lemma undo_lt:
  "replace_all ''&lt;'' ''<'' (concat (map esc3 s)) = concat (map esc2 s)"
proof -
  have "replace_all ''&lt;'' ''<'' (concat (map esc3 s))
          = concat (map (\<lambda>x. if esc3 x = ''&lt;'' then ''<'' else esc3 x) s)"
    by (rule replace_word_concat) (auto simp: esc3_def)
  also have "(\<lambda>x. if esc3 x = ''&lt;'' then ''<'' else esc3 x) = esc2"
    by (rule ext) (simp add: esc3_def esc2_def)
  finally show ?thesis .
qed

lemma undo_nbsp:
  "replace_all ''&nbsp;'' '' '' (concat (map esc2 s)) = concat (map esc1 s)"
proof -
  have "replace_all ''&nbsp;'' '' '' (concat (map esc2 s))
          = concat (map (\<lambda>x. if esc2 x = ''&nbsp;'' then '' '' else esc2 x) s)"
    by (rule replace_word_concat) (auto simp: esc2_def)
  also have "(\<lambda>x. if esc2 x = ''&nbsp;'' then '' '' else esc2 x) = esc1"
    by (rule ext) (simp add: esc2_def esc1_def)
  finally show ?thesis .
qed

lemma undo_amp:
  "replace_all ''&amp;'' ''&'' (concat (map esc1 s)) = s"
proof -
  have "replace_all ''&amp;'' ''&'' (concat (map esc1 s))
          = concat (map (\<lambda>x. if esc1 x = ''&amp;'' then ''&'' else esc1 x) s)"
    by (rule replace_word_concat) (auto simp: esc1_def)
  also have "(\<lambda>x. if esc1 x = ''&amp;'' then ''&'' else esc1 x) = (\<lambda>x. [x])"
    by (rule ext) (simp add: esc1_def)
  finally show ?thesis by simp
qed

lemma Unescape_unfold:
  "Unescape s =
     replace_all ''&amp;'' ''&''
       (replace_all ''&nbsp;'' '' ''
         (replace_all ''&lt;'' ''<''
           (replace_all ''&gt;'' ''>''
             (replace_all ''<br/>'' [CR, LF]
               (replace_all ''<br/>'' [LF]
                 (replace_all ''&quot;'' [DQUOTE] s))))))"
  by (simp add: Unescape_def escape_table_def)

lemma Unescape_concat_esc_char: "Unescape (concat (map esc_char s)) = s"
  by (simp only: Unescape_unfold undo_quot undo_lf undo_crlf undo_gt undo_lt undo_nbsp undo_amp)

lemma Unescape_Escape: "no_crlf s \<Longrightarrow> Unescape (Escape s) = s"
  by (simp add: Escape_esc esc_no_crlf Unescape_concat_esc_char)

section \<open>The sort and the walk of MarkUpCode\<close>

lemma insert_sorted_insort: "insert_sorted compare_offsets x ys = insort_key offset x ys"
  by (induction ys) (simp_all add: compare_offsets_def)

lemma array_sort_sort_key: "array_sort compare_offsets xs = sort_key offset xs"
  by (induction xs) (simp_all add: array_sort_def insert_sorted_insort)

lemma sorted_entries_sorted: "sorted (map offset (sorted_entries profile))"
  by (simp add: sorted_entries_def array_sort_sort_key)

lemma set_sorted_entries: "set (sorted_entries profile) = set (flatten profile)"
  by (simp add: sorted_entries_def array_sort_sort_key)


lemma PrintType_marker: "PrintType t m = m\<lparr>result := result m @ marker t\<rparr>"
  by (simp add: PrintType_def marker_def)

lemma print_types_result: "result (print_types ts m) = result m @ concat (map marker ts)"
  by (induction ts arbitrary: m) (simp_all add: PrintType_marker)

lemma print_types_cursor: "cursor (print_types ts m) = cursor m"
  by (induction ts arbitrary: m) (simp_all add: PrintType_marker)


lemma walk_final:
  "result (CopySourceUpTo source (int (length source)) (walk source es m))
     = result m @ weave (map Escape (pieces source (cursor m) es)) (map markers es)"
  by (induction es arbitrary: m)
     (simp_all add: CopySourceUpTo_def print_types_result print_types_cursor markers_def)

lemma MarkUpCode_weave:
  "MarkUpCode profile source =
     weave (map Escape (pieces source 0 (sorted_entries profile)))
           (map markers (sorted_entries profile))"
  by (simp add: MarkUpCode_def walk_final)

subsection \<open>Slices\<close>

lemma clamp_mono: "i \<le> j \<Longrightarrow> clamp s i \<le> clamp s j"
  by (simp add: clamp_def)

lemma substring_ordered:
  "clamp s a \<le> clamp s b \<Longrightarrow> substring s a b = take (clamp s b - clamp s a) (drop (clamp s a) s)"
  by (auto simp: substring_def clamp_def Let_def min_def max_def nat_diff_distrib split: if_splits)

lemma substring_to_end: "substring s a (int (length s)) = drop (clamp s a) s"
  by (auto simp: substring_def clamp_def Let_def min_def max_def nat_diff_distrib)



lemma take_drop_join: "i \<le> j \<Longrightarrow> take (j - i) (drop i s) @ drop j s = drop i s"
  by (metis add_diff_inverse_nat append_take_drop_id drop_drop leD add.commute)

lemma concat_pieces:
  "sorted (map offset es) \<Longrightarrow> \<forall>e \<in> set es. clamp source c \<le> clamp source (offset e) \<Longrightarrow>
     concat (pieces source c es) = drop (clamp source c) source"
proof (induction es arbitrary: c)
  case Nil
  then show ?case by (simp add: substring_to_end)
next
  case (Cons e es)
  have le: "clamp source c \<le> clamp source (offset e)"
    using Cons.prems(2) by simp
  have "\<forall>x \<in> set es. clamp source (offset e) \<le> clamp source (offset x)"
    using Cons.prems(1) by (auto intro: clamp_mono)
  moreover have "sorted (map offset es)"
    using Cons.prems(1) by simp
  ultimately have "concat (pieces source (offset e) es) = drop (clamp source (offset e)) source"
    by (rule Cons.IH[rotated])
  then show ?case
    using le by (simp add: substring_ordered take_drop_join)
qed

lemma concat_pieces_0:
  "sorted (map offset es) \<Longrightarrow> concat (pieces source 0 es) = source"
  using concat_pieces [of es source 0] by (simp add: clamp_def)

subsection \<open>Lengths and occurrences\<close>

lemma length_weave: "length (weave ps ms) = length (concat ps) + length (concat ms)"
  by (induction ps ms rule: weave.induct) simp_all

lemma marker_nonempty: "0 < length (marker t)"
  by (simp add: marker_def)

lemma markers_positive:
  "e \<in> set es \<Longrightarrow> types e \<noteq> [] \<Longrightarrow> 0 < length (concat (map markers es))"
proof (induction es)
  case Nil
  then show ?case by simp
next
  case (Cons x xs)
  show ?case
  proof (cases "types x")
    case Nil
    with Cons show ?thesis by (auto simp: markers_def)
  next
    case (Cons t ts)
    then show ?thesis using marker_nonempty [of t] by (simp add: markers_def)
  qed
qed

lemma MarkUpCode_length:
  "length (MarkUpCode profile source)
     = length (concat (map Escape (pieces source 0 (sorted_entries profile))))
       + length (concat (map markers (sorted_entries profile)))"
  by (simp only: MarkUpCode_weave length_weave)

lemma MarkUpCode_ge: "length (Escape source) \<le> length (MarkUpCode profile source)"
proof -
  have "concat (pieces source 0 (sorted_entries profile)) = source"
    by (rule concat_pieces_0) (rule sorted_entries_sorted)
  then have "length (Escape source)
               \<le> length (concat (map Escape (pieces source 0 (sorted_entries profile))))"
    using Escape_concat_length [of "pieces source 0 (sorted_entries profile)"] by simp
  then show ?thesis by (simp only: MarkUpCode_length)
qed

lemma MarkUpCode_empty: "flatten profile = [] \<Longrightarrow> MarkUpCode profile source = Escape source"
  by (simp add: MarkUpCode_weave sorted_entries_def array_sort_def substring_to_end clamp_def)

lemma MarkUpCode_strict:
  assumes "e \<in> set (flatten profile)" "types e \<noteq> []"
  shows "length (Escape source) < length (MarkUpCode profile source)"
proof -
  have "e \<in> set (sorted_entries profile)"
    using assms(1) by (simp add: set_sorted_entries)
  then have "0 < length (concat (map markers (sorted_entries profile)))"
    using assms(2) by (rule markers_positive)
  moreover have "concat (pieces source 0 (sorted_entries profile)) = source"
    by (rule concat_pieces_0) (rule sorted_entries_sorted)
  then have "length (Escape source)
               \<le> length (concat (map Escape (pieces source 0 (sorted_entries profile))))"
    using Escape_concat_length [of "pieces source 0 (sorted_entries profile)"] by simp
  ultimately show ?thesis by (simp only: MarkUpCode_length)
qed


lemma sublist_concat: "x \<in> set xs \<Longrightarrow> sublist x (concat xs)"
  by (induction xs) (auto simp: sublist_append)

lemma sublist_weave: "m \<in> set ms \<Longrightarrow> sublist m (weave ps ms)"
proof (induction ps ms rule: weave.induct)
  case (1 p ps m' ms)
  show ?case
  proof (cases "m = m'")
    case True
    then show ?thesis by simp
  next
    case False
    with 1 have "sublist m (weave ps ms)" by simp
    then show ?thesis
      by (metis append.assoc weave.simps(1) sublist_append)
  qed
next
  case (2 ps)
  then show ?case by simp
next
  case (3 v va)
  then show ?case
    using sublist_concat [of m "v # va"] by simp
qed

lemma marker_in_output:
  assumes "e \<in> set (flatten profile)" "t \<in> set (types e)"
  shows "sublist (marker t) (MarkUpCode profile source)"
proof -
  have "sublist (marker t) (markers e)"
    unfolding markers_def using assms(2) by (intro sublist_concat) simp
  moreover have "markers e \<in> set (map markers (sorted_entries profile))"
    using assms(1) by (simp add: set_sorted_entries)
  then have "sublist (markers e) (MarkUpCode profile source)"
    unfolding MarkUpCode_weave by (rule sublist_weave)
  ultimately show ?thesis
    by (rule sublist_order.order.trans)
qed

section \<open>The command sequence of CollectProfile\<close>








lemma await_then_step_ok:
  assumes "\<And>s. all_posted_ok R s \<Longrightarrow> step_ok R (m s)"
    and "\<And>a s. all_posted_ok R s \<Longrightarrow> step_ok R (f a s)"
    and "all_posted_ok R s"
  shows "step_ok R (await_then m f s)"
proof (cases "m s")
  case (Pair out s')
  have "step_ok R (out, s')" using assms(1) [OF assms(3)] Pair by simp
  then show ?thesis
    using Pair assms(2) by (cases out) (simp_all add: await_then_def)
qed

lemma connect_step_ok: "all_posted_ok R s \<Longrightarrow> step_ok R (connect R s)"
  by (auto simp: connect_def all_posted_ok_def rejected_by_last_def Let_def split: option.splits)

lemma trace_deliver: "trace (deliver R c s) = trace s"
  by (simp add: deliver_def)

lemma postAsync_cases:
  "postAsync R c s =
     ((case respond R c of
         NoReply \<Rightarrow> Pending
       | Callback error res \<Rightarrow>
           (case failing (respond R c) of Some r \<Rightarrow> Rejected r | None \<Rightarrow> Resolved res)),
      deliver R c (s\<lparr>trace := trace s @ [Post c]\<rparr>))"
  by (simp add: postAsync_def failing_def Let_def split: reply.splits option.splits)

lemma postAsync_step_ok: "all_posted_ok R s \<Longrightarrow> step_ok R (postAsync R c s)"
  unfolding postAsync_cases
  by (cases "respond R c"; cases "failing (respond R c)")
     (auto simp: all_posted_ok_def rejected_by_last_def trace_deliver failing_def)

lemma on_step_ok: "all_posted_ok R s \<Longrightarrow> step_ok R (Resolved (), on_consoleAPICalled s)"
  by (simp add: all_posted_ok_def on_consoleAPICalled_def)

lemma try_block_step_ok: "step_ok R (try_block R source new_session)"
proof -
  have "all_posted_ok R new_session"
    by (simp add: new_session_def all_posted_ok_def)
  then show ?thesis
    unfolding try_block_def Let_def
    by (intro await_then_step_ok connect_step_ok postAsync_step_ok on_step_ok) simp_all
qed

lemma CollectProfile_failing:
  assumes "Post c \<in> set (trace (snd (CollectProfile R source)))"
    and "failing (respond R c) = Some r"
  shows "fst (CollectProfile R source) = Rejected r
         \<and> (\<exists>pre. trace (snd (CollectProfile R source)) = pre @ [Post c, Disconnect])"
proof -
  obtain out s where run: "try_block R source new_session = (out, s)"
    by (cases "try_block R source new_session")
  have ok: "step_ok R (out, s)"
    using try_block_step_ok [of R source] run by simp
  have posted: "Post c \<in> set (trace s)"
    using assms(1) run by (cases out) (auto simp: CollectProfile_def Let_def disconnect_def)
  show ?thesis
  proof (cases out)
    case (Resolved p)
    with ok posted assms(2) show ?thesis by (simp add: all_posted_ok_def)
  next
    case Pending
    with ok posted assms(2) show ?thesis by (simp add: all_posted_ok_def)
  next
    case (Rejected r')
    with ok have "rejected_by_last R r' s" by simp
    with posted assms(2) have "r' = r" and "\<exists>pre. trace s = pre @ [Post c]"
      by (auto simp: rejected_by_last_def)
    then show ?thesis
      using run Rejected by (auto simp: CollectProfile_def disconnect_def)
  qed
qed

lemma await_then_Resolved:
  "await_then m f s = (Resolved b, s'') \<Longrightarrow>
     \<exists>a s'. m s = (Resolved a, s') \<and> f a s' = (Resolved b, s'')"
  by (cases "m s"; cases "fst (m s)") (auto simp: await_then_def)

lemma postAsync_Resolved:
  "postAsync R c s = (Resolved res, s') \<Longrightarrow> \<exists>e. respond R c = Callback e res"
  by (auto simp: postAsync_def Let_def split: reply.splits option.splits)

lemma try_block_Resolved:
  assumes "try_block R source s = (Resolved profile, s')"
  shows "\<exists>e1 compiled e2 taken.
           respond R (RuntimeCompileScript source ''test'' True) = Callback e1 compiled
         \<and> respond R ProfilerTakeTypeProfile = Callback e2 taken
         \<and> profile = filter (\<lambda>x. scriptId x = r_scriptId compiled) (r_result taken)"
  using assms unfolding try_block_def Let_def
  by (auto dest!: await_then_Resolved postAsync_Resolved)

lemma CollectProfile_Resolved:
  "fst (CollectProfile R source) = Resolved (profile, logs) \<Longrightarrow>
     \<exists>s. try_block R source new_session = (Resolved profile, s)"
  by (cases "try_block R source new_session"; cases "fst (try_block R source new_session)")
     (auto simp: CollectProfile_def Let_def)

lemma CollectProfile_profile:
  assumes "fst (CollectProfile R source) = Resolved (profile, logs)"
    and "respond R (RuntimeCompileScript source ''test'' True) = Callback e1 compiled"
    and "respond R ProfilerTakeTypeProfile = Callback e2 taken"
  shows "profile = filter (\<lambda>x. scriptId x = r_scriptId compiled) (r_result taken)
         \<and> (\<forall>x. x \<in> set profile \<longleftrightarrow> x \<in> set (r_result taken) \<and> scriptId x = r_scriptId compiled)"
proof -
  obtain s where "try_block R source new_session = (Resolved profile, s)"
    using CollectProfile_Resolved [OF assms(1)] by blast
  from try_block_Resolved [OF this] assms(2,3)
  have "profile = filter (\<lambda>x. scriptId x = r_scriptId compiled) (r_result taken)"
    by auto
  then show ?thesis by auto
qed

lemmas driver_defs =
  CollectProfile_def try_block_def await_then_def connect_def postAsync_def deliver_def
  on_consoleAPICalled_def disconnect_def new_session_def example_remote_def throwing_remote_def
  ok_result_def harvested_def Let_def

subsection \<open>The runtime's sort as a parameter\<close>













subsection \<open>The cursor\<close>




lemmas markup_defs =
  MarkUpCode_def sorted_entries_def flatten_def array_sort_def compare_offsets_def
  CopySourceUpTo_def substring_def Escape_def escape_table_def PrintType_def marker_def
  markers_def CR_def LF_def DQUOTE_def

section \<open>The properties of the specification\<close>

subsection \<open>Session Driver\<close>



text \<open>
  C2. If a command that the driver has posted is answered with a remote error, or with a
  result that carries exception details, then \<open>CollectProfile\<close> rejects with that error,
  respectively that exception description, as the reason; no further command is posted (the
  failed command is followed by the call of \<open>disconnect\<close> only); and since the promise is
  rejected, no pair of profile and messages is returned.
\<close>

theorem CollectProfile_aborts_on_failure:
  assumes "Post c \<in> set (trace (snd (CollectProfile R source)))"
  shows "(respond R c = Callback (Some e) res \<longrightarrow>
            fst (CollectProfile R source) = Rejected (ErrorObject e)
            \<and> (\<exists>pre. trace (snd (CollectProfile R source)) = pre @ [Post c, Disconnect]))
       \<and> (respond R c = Callback None res \<and> exceptionDetails res = Some details \<longrightarrow>
            fst (CollectProfile R source) = Rejected (Description (description (exception details)))
            \<and> (\<exists>pre. trace (snd (CollectProfile R source)) = pre @ [Post c, Disconnect]))"
proof (intro conjI impI)
  assume "respond R c = Callback (Some e) res"
  then have f: "failing (respond R c) = Some (ErrorObject e)"
    by (simp add: failing_def)
  from CollectProfile_failing [OF assms f]
  show "fst (CollectProfile R source) = Rejected (ErrorObject e)"
    and "\<exists>pre. trace (snd (CollectProfile R source)) = pre @ [Post c, Disconnect]"
    by simp_all
next
  assume "respond R c = Callback None res \<and> exceptionDetails res = Some details"
  then have f: "failing (respond R c) = Some (Description (description (exception details)))"
    by (simp add: failing_def)
  from CollectProfile_failing [OF assms f]
  show "fst (CollectProfile R source) = Rejected (Description (description (exception details)))"
    and "\<exists>pre. trace (snd (CollectProfile R source)) = pre @ [Post c, Disconnect]"
    by simp_all
qed

theorem CollectProfile_aborts_on_failure_witness:
  "Post (RuntimeRunScript ''42'') \<in> set (trace (snd (CollectProfile throwing_remote ''throw 1'')))
   \<and> respond throwing_remote (RuntimeRunScript ''42'')
       = Callback None (ok_result\<lparr>exceptionDetails := Some \<lparr>exception = \<lparr>description = ''Error: boom''\<rparr>\<rparr>\<rparr>)
   \<and> fst (CollectProfile throwing_remote ''throw 1'') = Rejected (Description ''Error: boom'')
   \<and> (\<exists>pre. trace (snd (CollectProfile throwing_remote ''throw 1''))
              = pre @ [Post (RuntimeRunScript ''42''), Disconnect])"
proof -
  have posted: "Post (RuntimeRunScript ''42'')
                  \<in> set (trace (snd (CollectProfile throwing_remote ''throw 1'')))"
    by (simp add: driver_defs)
  have reply: "respond throwing_remote (RuntimeRunScript ''42'')
       = Callback None (ok_result\<lparr>exceptionDetails := Some \<lparr>exception = \<lparr>description = ''Error: boom''\<rparr>\<rparr>\<rparr>)"
    by (simp add: throwing_remote_def)
  show ?thesis
    using posted reply
      CollectProfile_aborts_on_failure [OF posted,
        where res = "ok_result\<lparr>exceptionDetails := Some \<lparr>exception = \<lparr>description = ''Error: boom''\<rparr>\<rparr>\<rparr>"
          and details = "\<lparr>exception = \<lparr>description = ''Error: boom''\<rparr>\<rparr>"]
    by (simp add: ok_result_def)
qed

text \<open>
  C3. The profile that \<open>CollectProfile\<close> returns is the harvested result of
  \<open>Profiler.takeTypeProfile\<close> filtered by script identifier: an entry is in it exactly when
  it is in the harvested data and its \<open>scriptId\<close> equals the one that
  \<open>Runtime.compileScript\<close> returned for this run.
\<close>

theorem CollectProfile_filters_by_scriptId:
  assumes "fst (CollectProfile R source) = Resolved (profile, logs)"
    and "respond R (RuntimeCompileScript source ''test'' True) = Callback e1 compiled"
    and "respond R ProfilerTakeTypeProfile = Callback e2 taken"
  shows "profile = filter (\<lambda>x. scriptId x = r_scriptId compiled) (r_result taken)
         \<and> (\<forall>x. x \<in> set profile \<longleftrightarrow>
                x \<in> set (r_result taken) \<and> scriptId x = r_scriptId compiled)"
  using assms by (rule CollectProfile_profile)

theorem CollectProfile_filters_by_scriptId_witness:
  "fst (CollectProfile example_remote ''let x = 1;'')
     = Resolved (number_profile, [\<lparr>level = ''log'', log_value = ''1''\<rparr>])
   \<and> respond example_remote (RuntimeCompileScript ''let x = 1;'' ''test'' True)
       = Callback None ok_result
   \<and> respond example_remote ProfilerTakeTypeProfile
       = Callback None (ok_result\<lparr>r_result := harvested\<rparr>)
   \<and> number_profile = filter (\<lambda>x. scriptId x = ''42'') harvested
   \<and> \<lparr>scriptId = ''7'', entries = [\<lparr>offset = 0, types = [\<lparr>name = ''string''\<rparr>]\<rparr>]\<rparr> \<in> set harvested
   \<and> \<lparr>scriptId = ''7'', entries = [\<lparr>offset = 0, types = [\<lparr>name = ''string''\<rparr>]\<rparr>]\<rparr> \<notin> set number_profile"
proof -
  have run: "fst (CollectProfile example_remote ''let x = 1;'')
               = Resolved (number_profile, [\<lparr>level = ''log'', log_value = ''1''\<rparr>])"
    by (simp add: driver_defs number_profile_def)
  have compiled: "respond example_remote (RuntimeCompileScript ''let x = 1;'' ''test'' True)
                    = Callback None ok_result"
    by (simp add: example_remote_def)
  have taken: "respond example_remote ProfilerTakeTypeProfile
                 = Callback None (ok_result\<lparr>r_result := harvested\<rparr>)"
    by (simp add: example_remote_def)
  show ?thesis
    using run compiled taken CollectProfile_filters_by_scriptId [OF run compiled taken]
    by (simp add: ok_result_def harvested_def number_profile_def)
qed

subsection \<open>Escape\<close>

text \<open>
  C4. \<open>Escape\<close> is the composition of seven global substitutions in the order of the table:
  every \<open>&\<close> becomes \<open>&amp;\<close>, then every space \<open>&nbsp;\<close>, every \<open><\<close> \<open>&lt;\<close>, every
  \<open>>\<close> \<open>&gt;\<close>, every CR+LF pair \<open><br/>\<close>, every remaining LF \<open><br/>\<close>, and every double
  quote \<open>&quot;\<close>. Since \<open>&\<close> comes first, and \<open><\<close> and \<open>>\<close> come before the line breaks,
  no character of a replacement is escaped again: the result is the single pass \<open>esc\<close>
  over the input.
\<close>

theorem Escape_ordered_global:
  "Escape s = Escape_spec s \<and> Escape s = esc s"
  by (simp add: Escape_pipeline [symmetric] Escape_esc)

text \<open>
  C5, as stated, fails: CR+LF and a bare LF contain none of the replacement outputs and
  escape to the same line break, which the reverse substitution turns into a bare LF.
\<close>

theorem Escape_injective_counterexample:
  "marker_free [CR, LF] \<and> marker_free [LF] \<and> [CR, LF] \<noteq> [LF]
   \<and> Escape [CR, LF] = Escape [LF] \<and> Unescape (Escape [CR, LF]) \<noteq> [CR, LF]"
  by (simp add: marker_free_def escape_table_def Escape_def Unescape_def sublist_code
        CR_def LF_def DQUOTE_def)

text \<open>
  C5, amended. For a string that contains none of the replacement outputs and no CR
  immediately followed by LF, escaping and then the reverse substitution gives the string
  back, and no other such string has the same escaped text: \<open>Escape\<close> is injective on these
  strings.
\<close>

theorem Escape_injective_without_crlf:
  "marker_free s \<Longrightarrow> no_crlf s \<Longrightarrow>
     Unescape (Escape s) = s
     \<and> (\<forall>t. marker_free t \<and> no_crlf t \<and> t \<noteq> s \<longrightarrow> Escape t \<noteq> Escape s)"
  using Unescape_Escape [of s] Escape_inj_no_crlf [of _ s] by blast

theorem Escape_injective_without_crlf_witness:
  "marker_free ''a<b'' \<and> no_crlf ''a<b'' \<and> Unescape (Escape ''a<b'') = ''a<b''
   \<and> marker_free ''a>b'' \<and> no_crlf ''a>b'' \<and> ''a>b'' \<noteq> ''a<b''
   \<and> Escape ''a>b'' \<noteq> Escape ''a<b''"
proof -
  have mf: "marker_free ''a<b''" "marker_free ''a>b''"
    by (simp_all add: marker_free_def escape_table_def sublist_code CR_def LF_def DQUOTE_def)
  have nc: "no_crlf ''a<b''" "no_crlf ''a>b''"
    by (simp_all add: no_crlf_def sublist_code CR_def LF_def)
  have ne: "''a>b'' \<noteq> ''a<b''"
    by simp
  show ?thesis
    using mf nc ne Escape_injective_without_crlf [OF mf(1) nc(1)] by blast
qed

subsection \<open>Annotator\<close>

text \<open>
  C6, as stated, fails: a sample without types emits no marker, so the annotated text of a
  non-empty sample sequence can be exactly as long as the escaped source.
\<close>

theorem MarkUpCode_length_counterexample:
  "flatten [\<lparr>scriptId = ''42'', entries = [\<lparr>offset = 1, types = []\<rparr>]\<rparr>] \<noteq> []
   \<and> length (MarkUpCode [\<lparr>scriptId = ''42'', entries = [\<lparr>offset = 1, types = []\<rparr>]\<rparr>] ''abc'')
       = length (Escape ''abc'')"
  by (simp add: MarkUpCode_def sorted_entries_def flatten_def array_sort_def compare_offsets_def
       CopySourceUpTo_def substring_def Escape_def escape_table_def CR_def LF_def DQUOTE_def)

text \<open>
  C6, amended. The annotated text is at least as long as the escaped source, for every
  source and every sample sequence; the lengths are equal when the sample sequence is empty,
  and the annotated text is strictly longer as soon as one sample has a type.
\<close>

theorem MarkUpCode_length_invariant:
  "length (Escape source) \<le> length (MarkUpCode profile source)
   \<and> (flatten profile = [] \<longrightarrow> length (MarkUpCode profile source) = length (Escape source))
   \<and> ((\<exists>e \<in> set (flatten profile). types e \<noteq> []) \<longrightarrow>
        length (Escape source) < length (MarkUpCode profile source))"
  using MarkUpCode_ge [of source profile] MarkUpCode_empty [of profile source]
    MarkUpCode_strict [of _ profile source]
  by auto

theorem MarkUpCode_length_invariant_witness:
  "(flatten [\<lparr>scriptId = ''42'', entries = []\<rparr>] = []
      \<and> length (MarkUpCode [\<lparr>scriptId = ''42'', entries = []\<rparr>] ''let x = 1;'')
          = length (Escape ''let x = 1;''))
   \<and> ((\<exists>e \<in> set (flatten number_profile). types e \<noteq> [])
      \<and> length (Escape ''let x = 1;'') < length (MarkUpCode number_profile ''let x = 1;''))"
proof -
  have none: "flatten [\<lparr>scriptId = ''42'', entries = []\<rparr>] = []"
    by (simp add: flatten_def)
  have some: "\<exists>e \<in> set (flatten number_profile). types e \<noteq> []"
    by (simp add: flatten_def number_profile_def)
  show ?thesis
    using none some
      MarkUpCode_length_invariant [of "''let x = 1;''" "[\<lparr>scriptId = ''42'', entries = []\<rparr>]"]
      MarkUpCode_length_invariant [of "''let x = 1;''" number_profile]
    by blast
qed

text \<open>
  C9. When the flattened sample sequence is empty, \<open>MarkUpCode\<close> returns the escaped source
  and nothing else.
\<close>

theorem MarkUpCode_no_samples:
  "flatten profile = [] \<Longrightarrow> MarkUpCode profile source = Escape source"
  by (rule MarkUpCode_empty)

theorem MarkUpCode_no_samples_witness:
  "flatten [\<lparr>scriptId = ''42'', entries = []\<rparr>, \<lparr>scriptId = ''7'', entries = []\<rparr>] = []
   \<and> MarkUpCode [\<lparr>scriptId = ''42'', entries = []\<rparr>, \<lparr>scriptId = ''7'', entries = []\<rparr>] ''a < b''
       = ''a&nbsp;&lt;&nbsp;b''"
proof -
  have none: "flatten [\<lparr>scriptId = ''42'', entries = []\<rparr>, \<lparr>scriptId = ''7'', entries = []\<rparr>] = []"
    by (simp add: flatten_def)
  have e: "Escape ''a < b'' = ''a&nbsp;&lt;&nbsp;b''"
    by (simp add: Escape_def escape_table_def CR_def LF_def DQUOTE_def)
  show ?thesis
    using none e MarkUpCode_no_samples [OF none, of "''a < b''"] by simp
qed






text \<open>
  C10. \<open>PrintType\<close> appends the opening span tag with its fixed style, the name of the type
  as it is, the closing tag and one space. For every type of every sample this text is in
  the annotated text as it stands: the name is not escaped, and an unescaped space follows
  the closing tag.
\<close>

theorem PrintType_marker_verbatim:
  \<open>PrintType t m
     = m\<lparr>result := result m
           @ ''<span style="background-color: rgb(255, 0, 0); color: white">''
           @ name t @ ''</span>'' @ '' ''\<rparr>
   \<and> (\<forall>e \<in> set (flatten profile). \<forall>ty \<in> set (types e).
        sublist (''<span style="background-color: rgb(255, 0, 0); color: white">''
                   @ name ty @ ''</span>'' @ '' '')
                (MarkUpCode profile source))\<close>
proof (intro conjI ballI)
  show \<open>PrintType t m
     = m\<lparr>result := result m
           @ ''<span style="background-color: rgb(255, 0, 0); color: white">''
           @ name t @ ''</span>'' @ '' ''\<rparr>\<close>
    by (simp add: PrintType_def)
next
  fix e ty
  assume "e \<in> set (flatten profile)" "ty \<in> set (types e)"
  then have "sublist (marker ty) (MarkUpCode profile source)"
    by (rule marker_in_output)
  then show \<open>sublist (''<span style="background-color: rgb(255, 0, 0); color: white">''
                   @ name ty @ ''</span>'' @ '' '')
                (MarkUpCode profile source)\<close>
    by (simp add: marker_def)
qed

theorem PrintType_marker_verbatim_witness:
  \<open>\<lparr>offset = 1, types = [\<lparr>name = ''<b>''\<rparr>]\<rparr>
      \<in> set (flatten [\<lparr>scriptId = ''42'', entries = [\<lparr>offset = 1, types = [\<lparr>name = ''<b>''\<rparr>]\<rparr>]\<rparr>])
   \<and> \<lparr>name = ''<b>''\<rparr> \<in> set (types \<lparr>offset = 1, types = [\<lparr>name = ''<b>''\<rparr>]\<rparr>)
   \<and> sublist (''<span style="background-color: rgb(255, 0, 0); color: white">''
                @ ''<b>'' @ ''</span>'' @ '' '')
        (MarkUpCode [\<lparr>scriptId = ''42'', entries = [\<lparr>offset = 1, types = [\<lparr>name = ''<b>''\<rparr>]\<rparr>]\<rparr>] ''a<b'')
   \<and> MarkUpCode [\<lparr>scriptId = ''42'', entries = [\<lparr>offset = 1, types = [\<lparr>name = ''<b>''\<rparr>]\<rparr>]\<rparr>] ''a<b''
       = ''a<span style="background-color: rgb(255, 0, 0); color: white"><b></span> &lt;b''\<close>
proof -
  have mem: "\<lparr>offset = 1, types = [\<lparr>name = ''<b>''\<rparr>]\<rparr>
      \<in> set (flatten [\<lparr>scriptId = ''42'', entries = [\<lparr>offset = 1, types = [\<lparr>name = ''<b>''\<rparr>]\<rparr>]\<rparr>])"
    by (simp add: flatten_def)
  have ty: "\<lparr>name = ''<b>''\<rparr> \<in> set (types \<lparr>offset = 1, types = [\<lparr>name = ''<b>''\<rparr>]\<rparr>)"
    by simp
  have out: \<open>MarkUpCode [\<lparr>scriptId = ''42'', entries = [\<lparr>offset = 1, types = [\<lparr>name = ''<b>''\<rparr>]\<rparr>]\<rparr>] ''a<b''
       = ''a<span style="background-color: rgb(255, 0, 0); color: white"><b></span> &lt;b''\<close>
    by (simp add: markup_defs)
  have \<open>sublist (''<span style="background-color: rgb(255, 0, 0); color: white">''
                @ name \<lparr>name = ''<b>''\<rparr> @ ''</span>'' @ '' '')
        (MarkUpCode [\<lparr>scriptId = ''42'', entries = [\<lparr>offset = 1, types = [\<lparr>name = ''<b>''\<rparr>]\<rparr>]\<rparr>] ''a<b'')\<close>
    using PrintType_marker_verbatim [THEN conjunct2, rule_format, OF mem ty] .
  then show ?thesis
    using mem ty out by simp
qed

end
